theory Spec2Isabelle
  imports Main "HOL-Library.Sublist"
begin

section \<open>Python values used by \<open>super_simple.py\<close>\<close>

text \<open>
  A Python \<open>str\<close> is a sequence of Unicode code points, and \<open>len\<close>, slicing,
  \<open>startswith\<close> and \<open>split\<close> count code points. The source tests for the bullet
  \<open>U+2022\<close>, which is one character of a Python string, so a character is modelled
  by its code point and a string by the list of its code points.
\<close>

type_synonym pystr = "nat list"

definition str :: "string \<Rightarrow> pystr" where
  "str s = map of_char s"

datatype error = ValueError

subsection \<open>\<open>range(start, stop, step)\<close>\<close>

function range_up :: "int \<Rightarrow> int \<Rightarrow> int \<Rightarrow> int list" where
  "range_up i stop step =
     (if 0 < step \<and> i < stop then i # range_up (i + step) stop step else [])"
  by pat_completeness auto
termination
  by (relation "measure (\<lambda>(i, stop, step). nat (stop - i))") auto

function range_down :: "int \<Rightarrow> int \<Rightarrow> int \<Rightarrow> int list" where
  "range_down i stop step =
     (if step < 0 \<and> stop < i then i # range_down (i + step) stop step else [])"
  by pat_completeness auto
termination
  by (relation "measure (\<lambda>(i, stop, step). nat (i - stop))") auto

text \<open>\<open>range\<close> raises \<open>ValueError\<close> for a zero step; a negative step counts down.\<close>

definition py_range :: "int \<Rightarrow> int \<Rightarrow> int \<Rightarrow> error + int list" where
  "py_range start stop step =
     (if step = 0 then Inl ValueError
      else if 0 < step then Inr (range_up start stop step)
      else Inr (range_down start stop step))"

subsection \<open>Slicing \<open>xs[i:j]\<close>\<close>

text \<open>
  A negative bound counts from the end, and both bounds are clamped to the length;
  a slice never raises.
\<close>

definition slice_index :: "nat \<Rightarrow> int \<Rightarrow> nat" where
  "slice_index n i =
     (if i < 0 then (if i + int n < 0 then 0 else nat (i + int n))
      else if int n < i then n else nat i)"

definition py_slice :: "'a list \<Rightarrow> int \<Rightarrow> int \<Rightarrow> 'a list" where
  "py_slice xs i j = drop (slice_index (length xs) i) (take (slice_index (length xs) j) xs)"

section \<open>The chunker (the chunking loop of \<open>process_pdfs\<close>)\<close>

record metadata =
  source :: pystr
  chunk_index :: int
  total_chunks :: int

record chunk =
  chunk_text :: pystr
  chunk_metadata :: metadata

text \<open>
  One iteration of \<open>for i in range(0, len(text), chunk_size - overlap)\<close>: the list
  \<open>chunks\<close> is the loop's state, and \<open>len(chunks)\<close> is read before the append.
\<close>

definition chunk_step :: "pystr \<Rightarrow> pystr \<Rightarrow> int \<Rightarrow> int \<Rightarrow> chunk list \<Rightarrow> int \<Rightarrow> chunk list" where
  "chunk_step text source_name chunk_size overlap chunks i =
     (let chunk = py_slice text i (i + chunk_size) in
      if chunk \<noteq> [] then
        chunks @ [\<lparr>chunk_text = chunk,
                   chunk_metadata = \<lparr>source = source_name,
                                     chunk_index = int (length chunks),
                                     total_chunks = int (length text) div (chunk_size - overlap) + 1\<rparr>\<rparr>]
      else chunks)"

definition chunk :: "pystr \<Rightarrow> pystr \<Rightarrow> int \<Rightarrow> int \<Rightarrow> error + chunk list" where
  "chunk text source_name chunk_size overlap =
     (case py_range 0 (int (length text)) (chunk_size - overlap) of
        Inl e \<Rightarrow> Inl e
      | Inr offsets \<Rightarrow> Inr (foldl (chunk_step text source_name chunk_size overlap) [] offsets))"

text \<open>The values that \<open>process_pdfs\<close> assigns to its two local variables.\<close>

definition chunk_size_const :: int where
  "chunk_size_const = 1000"

definition overlap_const :: int where
  "overlap_const = 100"

definition process_pdfs_chunks :: "pystr \<Rightarrow> pystr \<Rightarrow> error + chunk list" where
  "process_pdfs_chunks text pdf_name = chunk text pdf_name chunk_size_const overlap_const"

text \<open>
  The number of offsets that \<open>range(0, n, step)\<close> yields for a positive step, used to
  state results about the chunk sequence.
\<close>

definition chunk_count :: "nat \<Rightarrow> int \<Rightarrow> nat" where
  "chunk_count n step = nat ((int n + step - 1) div step)"

section \<open>String operations used by \<open>generate_markdown\<close>\<close>

text \<open>
  \<open>str.strip()\<close> removes the characters for which \<open>str.isspace\<close> holds from both
  ends: the ASCII controls \<open>\t \n \v \f \r\<close> and \<open>0x1C\<close> to \<open>0x1F\<close>, the space, and
  the Unicode separators \<open>U+0085\<close>, \<open>U+00A0\<close>, \<open>U+1680\<close>, \<open>U+2000\<close> to \<open>U+200A\<close>,
  \<open>U+2028\<close>, \<open>U+2029\<close>, \<open>U+202F\<close>, \<open>U+205F\<close> and \<open>U+3000\<close>.
\<close>

definition is_space :: "nat \<Rightarrow> bool" where
  "is_space c \<longleftrightarrow>
     (9 \<le> c \<and> c \<le> 13) \<or> (28 \<le> c \<and> c \<le> 32) \<or> c = 133 \<or> c = 160 \<or> c = 5760
     \<or> (8192 \<le> c \<and> c \<le> 8202) \<or> c = 8232 \<or> c = 8233 \<or> c = 8239 \<or> c = 8287 \<or> c = 12288"

definition py_strip :: "pystr \<Rightarrow> pystr" where
  "py_strip s = rev (dropWhile is_space (rev (dropWhile is_space s)))"

text \<open>
  \<open>s.split(sep)\<close> scans from the left and cuts at each occurrence of \<open>sep\<close> that does
  not overlap the previous one; \<open>cur\<close> is the piece being read. The source passes only
  the literals \<open>'\n\n'\<close> and \<open>'\n'\<close>, so the empty separator, which Python rejects,
  does not occur.
\<close>

fun split_from :: "pystr \<Rightarrow> pystr \<Rightarrow> pystr \<Rightarrow> pystr list" where
  "split_from sep cur [] = [cur]"
| "split_from sep cur (c # cs) =
     (if prefix sep (c # cs) then cur # split_from sep [] (drop (length sep - 1) cs)
      else split_from sep (cur @ [c]) cs)"

definition py_split :: "pystr \<Rightarrow> pystr \<Rightarrow> pystr list" where
  "py_split s sep = split_from sep [] s"

fun py_join :: "pystr \<Rightarrow> pystr list \<Rightarrow> pystr" where
  "py_join sep [] = []"
| "py_join sep [x] = x"
| "py_join sep (x # y # ys) = x @ sep @ py_join sep (y # ys)"

definition startswith :: "pystr \<Rightarrow> pystr list \<Rightarrow> bool" where
  \<comment> \<open>\<open>s.startswith(tuple)\<close>: some element of the tuple is a prefix of \<open>s\<close>\<close>
  "startswith s ps = list_ex (\<lambda>p. prefix p s) ps"

definition endswith :: "pystr \<Rightarrow> pystr \<Rightarrow> bool" where
  "endswith s p = suffix p s"

text \<open>
  \<open>str.isupper()\<close> reads three properties of the Unicode character database
  (lowercase, uppercase, titlecase). The database is not part of the repository, so
  it is a parameter of the model. The loop is CPython's: a one-character string is
  answered from the uppercase property alone, the empty string is not upper-case, and
  otherwise no character may be lowercase or titlecase and one must be uppercase.
\<close>

record case_tables =
  is_lower :: "nat \<Rightarrow> bool"
  is_upper :: "nat \<Rightarrow> bool"
  is_title :: "nat \<Rightarrow> bool"

fun isupper_loop :: "case_tables \<Rightarrow> bool \<Rightarrow> pystr \<Rightarrow> bool" where
  "isupper_loop db cased [] = cased"
| "isupper_loop db cased (ch # s) =
     (if is_lower db ch \<or> is_title db ch then False
      else if \<not> cased \<and> is_upper db ch then isupper_loop db True s
      else isupper_loop db cased s)"

definition py_isupper :: "case_tables \<Rightarrow> pystr \<Rightarrow> bool" where
  "py_isupper db s =
     (case s of [] \<Rightarrow> False | [ch] \<Rightarrow> is_upper db ch | _ \<Rightarrow> isupper_loop db False s)"

text \<open>The tables restricted to the Basic Latin block, for evaluating examples.\<close>

definition basic_latin :: case_tables where
  "basic_latin = \<lparr>is_lower = (\<lambda>c. 97 \<le> c \<and> c \<le> 122),
                   is_upper = (\<lambda>c. 65 \<le> c \<and> c \<le> 90),
                   is_title = (\<lambda>c. False)\<rparr>"

text \<open>An integer formatted by an f-string: its decimal digits, with a sign if negative.\<close>

fun digits :: "nat \<Rightarrow> pystr" where
  "digits n = (if n < 10 then [48 + n] else digits (n div 10) @ [48 + n mod 10])"

definition str_int :: "int \<Rightarrow> pystr" where
  "str_int i = (if i < 0 then 45 # digits (nat (- i)) else digits (nat i))"

section \<open>The markdown reconstructor (\<open>generate_markdown\<close>)\<close>

definition markdown_header :: "pystr \<Rightarrow> int \<Rightarrow> pystr \<Rightarrow> pystr \<Rightarrow> pystr" where
  "markdown_header title page_count pdf_filename processed_date =
     str ''# '' @ title @ str ''\<newline>\<newline>**Source**: '' @ pdf_filename
     @ str ''\<newline>**Pages**: '' @ str_int page_count
     @ str ''\<newline>**Processed**: '' @ processed_date
     @ str ''\<newline>\<newline>---\<newline>\<newline>''"

text \<open>The tuple \<open>('\<bullet>', '-', '*', '1.', '2.')\<close>; the bullet is \<open>U+2022\<close>.\<close>

definition list_markers :: "pystr list" where
  "list_markers = [[8226], str ''-'', str ''*'', str ''1.'', str ''2.'']"

text \<open>
  The body of \<open>for paragraph in paragraphs\<close>: it takes the markdown built so far and
  returns it extended by what the paragraph contributes.
\<close>

definition markdown_step :: "case_tables \<Rightarrow> pystr \<Rightarrow> pystr \<Rightarrow> pystr" where
  "markdown_step db markdown paragraph =
     (let lines = py_split paragraph (str ''\<newline>'') in
      if length lines = 1 \<and> length paragraph < 100 then
        if py_isupper db paragraph \<or> endswith paragraph (str '':'') \<or> endswith paragraph (str ''.'') then
          if length paragraph < 50 then markdown @ str ''## '' @ paragraph @ str ''\<newline>\<newline>''
          else markdown @ str ''### '' @ paragraph @ str ''\<newline>\<newline>''
        else markdown @ paragraph @ str ''\<newline>\<newline>''
      else
        if list_ex (\<lambda>line. startswith (py_strip line) list_markers) lines then
          foldl (\<lambda>md line. md @ line @ str ''\<newline>'') markdown lines @ str ''\<newline>''
        else markdown @ py_join (str '' '') lines @ str ''\<newline>\<newline>'')"

definition paragraphs_of :: "pystr \<Rightarrow> pystr list" where
  \<comment> \<open>\<open>[p.strip() for p in text.split('\n\n') if p.strip()]\<close>\<close>
  "paragraphs_of text =
     map py_strip (filter (\<lambda>p. py_strip p \<noteq> []) (py_split text (str ''\<newline>\<newline>'')))"

definition generate_markdown :: "case_tables \<Rightarrow> pystr \<Rightarrow> pystr \<Rightarrow> int \<Rightarrow> pystr \<Rightarrow> pystr \<Rightarrow> pystr" where
  "generate_markdown db text title page_count pdf_filename processed_date =
     foldl (markdown_step db)
       (markdown_header title page_count pdf_filename processed_date)
       (paragraphs_of text)"

section \<open>The statements of \<open>process_pdfs\<close> around the chunking loop\<close>

text \<open>
  The chunking loop is not a function of its own in the source: it runs inside
  \<open>process_pdfs\<close>, among statements that read the clock and build the markdown. The state
  of that code is modelled by a record of the local variables that lines 277 to 304
  read or assign, together with \<open>clock\<close>, the string that
  \<open>datetime.now().strftime('%Y-%m-%d %H:%M:%S')\<close> returns when line 277 runs. The other
  local variables of \<open>process_pdfs\<close> are the extension part of the record. A variable
  holds an arbitrary value before its first assignment. Lines 285 and 286, which write
  the markdown to its file, assign no variable and are left out.
\<close>

record locals =
  clock :: pystr
  v_text :: pystr
  v_name :: pystr
  v_pdf_name :: pystr
  v_pages :: int
  v_processed_date :: pystr
  v_markdown_content :: pystr
  v_chunks :: "chunk list"
  v_chunk_size :: int
  v_overlap :: int
  v_i :: int
  v_chunk :: pystr

text \<open>
  Lines 277 to 284: \<open>processed_date\<close> is read from the clock and \<open>markdown_content\<close> is
  built from it. \<open>v_name\<close> is \<open>pdf_file.stem\<close>, \<open>v_pdf_name\<close> is \<open>pdf_file.name\<close> and
  \<open>v_pages\<close> is \<open>len(reader.pages)\<close>.
\<close>

definition stamp_and_render :: "case_tables \<Rightarrow> 'z locals_scheme \<Rightarrow> 'z locals_scheme" where
  "stamp_and_render db s =
     (let s1 = s\<lparr>v_processed_date := clock s\<rparr> in
      s1\<lparr>v_markdown_content :=
            generate_markdown db (v_text s1) (v_name s1) (v_pages s1) (v_pdf_name s1)
              (v_processed_date s1)\<rparr>)"

text \<open>Lines 295 to 304, the body of the loop, for the offset \<open>i\<close> that the loop assigns.\<close>

definition loop_body :: "'z locals_scheme \<Rightarrow> int \<Rightarrow> 'z locals_scheme" where
  "loop_body s i =
     (let s1 = s\<lparr>v_i := i\<rparr>;
          s2 = s1\<lparr>v_chunk := py_slice (v_text s1) (v_i s1) (v_i s1 + v_chunk_size s1)\<rparr>
      in if v_chunk s2 \<noteq> [] then
           s2\<lparr>v_chunks := v_chunks s2 @
                 [\<lparr>chunk_text = v_chunk s2,
                   chunk_metadata =
                     \<lparr>source = v_pdf_name s2,
                      chunk_index = int (length (v_chunks s2)),
                      total_chunks =
                        int (length (v_text s2)) div (v_chunk_size s2 - v_overlap s2) + 1\<rparr>\<rparr>]\<rparr>
         else s2)"

text \<open>Line 294 with its body: the arguments of \<open>range\<close> are evaluated once, before the loop.\<close>

definition chunking_loop :: "'z locals_scheme \<Rightarrow> error + 'z locals_scheme" where
  "chunking_loop s =
     (case py_range 0 (int (length (v_text s))) (v_chunk_size s - v_overlap s) of
        Inl e \<Rightarrow> Inl e
      | Inr offsets \<Rightarrow> Inr (foldl loop_body s offsets))"

text \<open>Lines 289 to 304: the three assignments, then the loop.\<close>

definition chunking :: "'z locals_scheme \<Rightarrow> error + 'z locals_scheme" where
  "chunking s = chunking_loop (s\<lparr>v_chunks := [], v_chunk_size := 1000, v_overlap := 100\<rparr>)"

text \<open>
  Two states that agree on the text and the file name and differ in the clock and in
  every other variable, for evaluating examples.
\<close>

definition sample_state1 :: locals where
  "sample_state1 =
     \<lparr>clock = str ''2024-01-01 00:00:00'', v_text = str ''ab'', v_name = str ''f'',
      v_pdf_name = str ''f.pdf'', v_pages = 1, v_processed_date = [], v_markdown_content = [],
      v_chunks = [], v_chunk_size = 0, v_overlap = 0, v_i = 0, v_chunk = []\<rparr>"

definition sample_state2 :: locals where
  "sample_state2 =
     \<lparr>clock = str ''2025-06-30 12:00:00'', v_text = str ''ab'', v_name = str ''g'',
      v_pdf_name = str ''f.pdf'', v_pages = 7, v_processed_date = str ''x'',
      v_markdown_content = str ''y'',
      v_chunks = [\<lparr>chunk_text = str ''old'',
                    chunk_metadata = \<lparr>source = str ''z'', chunk_index = 5, total_chunks = 6\<rparr>\<rparr>],
      v_chunk_size = 3, v_overlap = 8, v_i = 4, v_chunk = str ''w''\<rparr>"

section \<open>The collection assembler (\<open>prepare_openwebui_collection\<close>)\<close>

record content_chunk =
  chunk_id :: pystr
  doc_id :: pystr
  content :: pystr
  content_metadata :: metadata

record document =
  document_id :: pystr
  url :: pystr
  title :: pystr
  content_chunks :: "content_chunk list"

record collection =
  collection_name :: pystr
  documents :: "document list"

text \<open>
  Each chunk file either loads as a list of chunks or fails to load; a file that fails
  is reported and contributes nothing.
\<close>

definition load_all :: "chunk list option list \<Rightarrow> chunk list" where
  "load_all chunk_files =
     foldl (\<lambda>all_chunks chunk_file.
              case chunk_file of None \<Rightarrow> all_chunks | Some chunks \<Rightarrow> all_chunks @ chunks)
       [] chunk_files"

text \<open>
  \<open>docs_by_source\<close> is a dictionary, which keeps its keys in insertion order: an
  association list with a new key added at the end.
\<close>

fun append_at :: "pystr \<Rightarrow> chunk \<Rightarrow> (pystr \<times> chunk list) list \<Rightarrow> (pystr \<times> chunk list) list" where
  \<comment> \<open>\<open>docs_by_source[source].append(chunk)\<close>\<close>
  "append_at k c [] = []"
| "append_at k c ((k', v) # d) =
     (if k' = k then (k', v @ [c]) # d else (k', v) # append_at k c d)"

definition group_step :: "(pystr \<times> chunk list) list \<Rightarrow> chunk \<Rightarrow> (pystr \<times> chunk list) list" where
  "group_step docs_by_source c =
     (let src = source (chunk_metadata c);
          d = (if src \<notin> set (map fst docs_by_source) then docs_by_source @ [(src, [])]
               else docs_by_source)
      in append_at src c d)"

definition group_by_source :: "chunk list \<Rightarrow> (pystr \<times> chunk list) list" where
  "group_by_source all_chunks = foldl group_step [] all_chunks"

text \<open>
  \<open>uuid.uuid4()\<close> draws random identifiers. The model takes the identifiers drawn
  during one call as a parameter \<open>uuid4\<close>, the \<open>n\<close>-th draw being \<open>uuid4 n\<close>, and
  threads the number of draws made so far through both loops.
\<close>

definition add_chunk ::
  "(nat \<Rightarrow> pystr) \<Rightarrow> pystr \<Rightarrow> pystr \<Rightarrow> nat \<Rightarrow> nat \<times> content_chunk list \<Rightarrow> nat \<times> chunk
     \<Rightarrow> nat \<times> content_chunk list" where
  "add_chunk uuid4 did src n_total st ic =
     (case st of (n, ccs) \<Rightarrow> case ic of (i, c) \<Rightarrow>
        (Suc n,
         ccs @ [\<lparr>chunk_id = uuid4 n, doc_id = did, content = chunk_text c,
                 content_metadata = \<lparr>source = src, chunk_index = int i,
                                      total_chunks = int n_total\<rparr>\<rparr>]))"

definition add_document ::
  "(nat \<Rightarrow> pystr) \<Rightarrow> nat \<times> document list \<Rightarrow> pystr \<times> chunk list \<Rightarrow> nat \<times> document list" where
  "add_document uuid4 st entry =
     (case st of (n, docs) \<Rightarrow> case entry of (src, doc_chunks) \<Rightarrow>
        (let did = uuid4 n;
             r = foldl (add_chunk uuid4 did src (length doc_chunks)) (Suc n, [])
                   (enumerate 0 doc_chunks)
         in (fst r,
             docs @ [\<lparr>document_id = did, url = [], title = src, content_chunks = snd r\<rparr>])))"

definition build_documents :: "(nat \<Rightarrow> pystr) \<Rightarrow> chunk list \<Rightarrow> document list" where
  \<comment> \<open>lines 102 to 140: grouping, then one document per group\<close>
  "build_documents uuid4 all_chunks =
     snd (foldl (add_document uuid4) (0, []) (group_by_source all_chunks))"

text \<open>
  The result is the collection that the function dumps to \<open>knowledge_collection.json\<close>,
  or \<open>None\<close> when it returns before building one, in which case no file is written.
\<close>

definition prepare_openwebui_collection ::
  "(nat \<Rightarrow> pystr) \<Rightarrow> chunk list option list \<Rightarrow> pystr \<Rightarrow> collection option" where
  "prepare_openwebui_collection uuid4 chunk_files name =
     (let all_chunks = load_all chunk_files in
      if all_chunks = [] then None
      else Some \<lparr>collection_name = name, documents = build_documents uuid4 all_chunks\<rparr>)"

text \<open>The sources of a chunk list in the order in which each is first seen.\<close>

definition first_seen :: "'a list \<Rightarrow> 'a list" where
  "first_seen xs = foldl (\<lambda>seen x. if x \<in> set seen then seen else seen @ [x]) [] xs"

text \<open>A fixed supply of identifiers, for evaluating examples.\<close>

definition sample_uuid4 :: "nat \<Rightarrow> pystr" where
  "sample_uuid4 n = str ''uuid-'' @ digits n"

text \<open>
  The document that the outer loop builds for one group when \<open>m\<close> identifiers have
  been drawn before it, used to state results about the documents.
\<close>

definition document_of :: "(nat \<Rightarrow> pystr) \<Rightarrow> nat \<Rightarrow> pystr \<times> chunk list \<Rightarrow> document" where
  "document_of uuid4 m g =
     \<lparr>document_id = uuid4 m, url = [], title = fst g,
      content_chunks =
        map (\<lambda>ic. \<lparr>chunk_id = uuid4 (Suc m + fst ic), doc_id = uuid4 m,
                     content = chunk_text (snd ic),
                     content_metadata = \<lparr>source = fst g, chunk_index = int (fst ic),
                                          total_chunks = int (length (snd g))\<rparr>\<rparr>)
          (enumerate 0 (snd g))\<rparr>"

text \<open>Three chunks from two sources, spread over chunk files, one of which fails to load.\<close>

definition sample_chunk :: "string \<Rightarrow> string \<Rightarrow> chunk" where
  "sample_chunk t s =
     \<lparr>chunk_text = str t, chunk_metadata = \<lparr>source = str s, chunk_index = 7, total_chunks = 9\<rparr>\<rparr>"

definition sample_files :: "chunk list option list" where
  "sample_files =
     [Some [sample_chunk ''x'' ''a'', sample_chunk ''y'' ''b''], None, Some [sample_chunk ''z'' ''a'']]"

section \<open>Properties of the chunker\<close>

lemma py_range_isl: "isl (py_range start stop step) \<longleftrightarrow> step = 0"
  by (simp add: py_range_def)



lemma chunk_ab:
  "chunk (str ''ab'') s 1000 100 =
     Inr [\<lparr>chunk_text = str ''ab'',
           chunk_metadata = \<lparr>source = s, chunk_index = 0, total_chunks = 1\<rparr>\<rparr>]"
  by (simp add: chunk_def py_range_def chunk_step_def py_slice_def slice_index_def str_def)

lemma range_up_closed:
  "0 < step \<Longrightarrow> range_up i n step = map (\<lambda>k. i + int k * step) [0..<nat ((n - i + step - 1) div step)]"
proof (induction i n step rule: range_up.induct)
  case (1 i stop step)
  show ?case
  proof (cases "i < stop")
    case True
    have d: "(stop - i + step - 1) div step = (stop - (i + step) + step - 1) div step + 1"
    proof -
      have "stop - i + step - 1 = (stop - (i + step) + step - 1) + 1 * step" by simp
      then show ?thesis using 1(2) by (metis div_add_self2 less_irrefl mult_1 add.commute div_mult_self1)
    qed
    have nn: "0 \<le> (stop - (i + step) + step - 1) div step"
      using True 1(2) by (simp add: pos_imp_zdiv_nonneg_iff)
    have ih: "range_up (i + step) stop step =
        map (\<lambda>k. i + step + int k * step) [0..<nat ((stop - (i + step) + step - 1) div step)]"
      using 1 True by simp
    have "range_up i stop step = i # range_up (i + step) stop step"
      using True 1(2) by simp
    also have "\<dots> = map (\<lambda>k. i + int k * step) [0..<Suc (nat ((stop - (i + step) + step - 1) div step))]"
      unfolding ih by (simp add: upt_conv_Cons map_Suc_upt [symmetric] algebra_simps del: upt_Suc)
    also have "Suc (nat ((stop - (i + step) + step - 1) div step)) = nat ((stop - i + step - 1) div step)"
      using d nn by simp
    finally show ?thesis .
  next
    case False
    then have "(stop - i + step - 1) div step \<le> 0"
    proof -
      have "(stop - i + step - 1) div step \<le> (step - 1) div step"
        using False 1(2) by (intro zdiv_mono1) auto
      also have "(step - 1) div step = 0" using 1(2) by (simp add: div_pos_pos_trivial)
      finally show ?thesis .
    qed
    then show ?thesis using False by simp
  qed
qed

lemma py_slice_window:
  assumes "0 \<le> i" "i < int (length T)" "0 < cs"
  shows "py_slice T i (i + cs) = take (nat cs) (drop (nat i) T)"
    and "py_slice T i (i + cs) \<noteq> []"
proof -
  have a: "slice_index (length T) i = nat i"
    using assms by (simp add: slice_index_def)
  have b: "slice_index (length T) (i + cs) = min (length T) (nat (i + cs))"
    using assms by (auto simp: slice_index_def)
  show e: "py_slice T i (i + cs) = take (nat cs) (drop (nat i) T)"
    unfolding py_slice_def a b using assms
    by (simp add: drop_take min_def nat_add_distrib)
  show "py_slice T i (i + cs) \<noteq> []"
    unfolding e using assms by simp
qed

lemma foldl_chunk_step:
  assumes "\<forall>i\<in>set offs. 0 \<le> i \<and> i < int (length T)" "0 < cs"
  shows "foldl (chunk_step T s cs ov) acc offs =
     acc @ map (\<lambda>k. \<lparr>chunk_text = take (nat cs) (drop (nat (offs ! k)) T),
                      chunk_metadata = \<lparr>source = s, chunk_index = int (length acc + k),
                         total_chunks = int (length T) div (cs - ov) + 1\<rparr>\<rparr>) [0..<length offs]"
  using assms(1)
proof (induction offs rule: rev_induct)
  case Nil
  then show ?case by simp
next
  case (snoc i offs)
  have i: "0 \<le> i" "i < int (length T)" using snoc.prems by auto
  have ih: "foldl (chunk_step T s cs ov) acc offs =
     acc @ map (\<lambda>k. \<lparr>chunk_text = take (nat cs) (drop (nat (offs ! k)) T),
                      chunk_metadata = \<lparr>source = s, chunk_index = int (length acc + k),
                         total_chunks = int (length T) div (cs - ov) + 1\<rparr>\<rparr>) [0..<length offs]"
    using snoc by simp
  have st: "chunk_step T s cs ov xs i = xs @ [\<lparr>chunk_text = take (nat cs) (drop (nat i) T),
                      chunk_metadata = \<lparr>source = s, chunk_index = int (length xs),
                         total_chunks = int (length T) div (cs - ov) + 1\<rparr>\<rparr>]" for xs
    using py_slice_window [OF i assms(2)] by (simp add: chunk_step_def Let_def)
  show ?case
    by (simp add: ih st nth_append)
qed

lemma int_le_div_iff:
  fixes a b q :: int
  assumes "0 < b"
  shows "q \<le> a div b \<longleftrightarrow> q * b \<le> a"
proof
  assume "q \<le> a div b"
  then have "q * b \<le> (a div b) * b"
    using assms by (simp add: mult_right_mono)
  also have "(a div b) * b = a - a mod b"
    by (simp add: algebra_simps minus_mod_eq_mult_div)
  also have "\<dots> \<le> a"
    using assms by simp
  finally show "q * b \<le> a" .
next
  assume "q * b \<le> a"
  then have "(q * b) div b \<le> a div b"
    using assms by (rule zdiv_mono1)
  then show "q \<le> a div b"
    using assms by simp
qed


lemma less_chunk_count_iff:
  assumes "0 < step"
  shows "k < chunk_count n step \<longleftrightarrow> int k * step < int n"
proof -
  have "k < chunk_count n step \<longleftrightarrow> int k + 1 \<le> (int n + step - 1) div step"
    unfolding chunk_count_def by linarith
  also have "\<dots> \<longleftrightarrow> (int k + 1) * step \<le> int n + step - 1"
    using assms by (rule int_le_div_iff)
  also have "\<dots> \<longleftrightarrow> int k * step < int n"
    by (auto simp: algebra_simps)
  finally show ?thesis .
qed

lemma chunk_closed:
  assumes "ov < cs" "0 < cs"
  shows "chunk T s cs ov =
     Inr (map (\<lambda>k. \<lparr>chunk_text = take (nat cs) (drop (k * nat (cs - ov)) T),
                      chunk_metadata = \<lparr>source = s, chunk_index = int k,
                         total_chunks = int (length T) div (cs - ov) + 1\<rparr>\<rparr>)
              [0..<chunk_count (length T) (cs - ov)])"
proof -
  let ?step = "cs - ov"
  let ?m = "chunk_count (length T) ?step"
  let ?offs = "map (\<lambda>k. int k * ?step) [0..<?m]"
  have step: "0 < ?step" using assms by simp
  have r: "py_range 0 (int (length T)) ?step = Inr ?offs"
    using step range_up_closed [OF step, of 0 "int (length T)"]
    by (simp add: py_range_def chunk_count_def)
  have inb: "\<forall>i\<in>set ?offs. 0 \<le> i \<and> i < int (length T)"
    using step by (auto simp: less_chunk_count_iff)
  have n: "nat (int k * ?step) = k * nat ?step" for k
    using step by (simp add: nat_mult_distrib)
  show ?thesis
    unfolding chunk_def r
    by (simp add: foldl_chunk_step [OF inb assms(2)] n)
qed

lemma chunk_count_eq:
  assumes "0 < step"
  shows "int (chunk_count n step) =
     (if step dvd int n then int n div step else int n div step + 1)"
proof (cases "step dvd int n")
  case True
  then obtain q where q: "int n = step * q" ..
  have "int n + step - 1 = step * q + (step - 1)" using q by simp
  then have "(int n + step - 1) div step = q + (step - 1) div step"
    using assms by (metis div_mult_self4 less_irrefl)
  also have "(step - 1) div step = 0" using assms by (simp add: div_pos_pos_trivial)
  finally have "(int n + step - 1) div step = int n div step"
    using q assms by simp
  moreover have "0 \<le> int n div step" using assms by (simp add: pos_imp_zdiv_nonneg_iff)
  ultimately show ?thesis using True by (simp add: chunk_count_def)
next
  case False
  let ?r = "int n mod step"
  have "0 \<le> ?r" "?r \<noteq> 0" "?r < step"
    using False assms by (simp_all add: dvd_eq_mod_eq_0)
  then have r: "0 < ?r" "?r < step" by simp_all
  have "int n + step - 1 = step * (int n div step + 1) + (?r - 1)"
    by (simp add: algebra_simps)
  then have "(int n + step - 1) div step = (int n div step + 1) + (?r - 1) div step"
    using assms by (metis div_mult_self4 less_irrefl)
  also have "(?r - 1) div step = 0" using r by (simp add: div_pos_pos_trivial)
  finally have "(int n + step - 1) div step = int n div step + 1" by simp
  moreover have "0 \<le> int n div step" using assms by (simp add: pos_imp_zdiv_nonneg_iff)
  ultimately show ?thesis using False by (simp add: chunk_count_def)
qed

lemma window_nth:
  assumes "a \<le> j" "j < length T" "j - a < n"
  shows "j - a < length (take n (drop a T))" and "take n (drop a T) ! (j - a) = T ! j"
  using assms by auto

text \<open>
  C1: for \<open>chunk_size > overlap \<ge> 0\<close> the chunker returns chunks whose start offsets
  are the offsets \<open>0, step, 2 * step, \<dots>\<close> of the loop, with \<open>step = chunk_size - overlap\<close>,
  one chunk per offset and each offset inside the text; the \<open>k\<close>-th chunk's text is the
  substring of at most \<open>chunk_size\<close> characters starting at offset \<open>k * step\<close>, it is
  not empty, and its \<open>chunk_index\<close> is \<open>k\<close>; every position of the text lies in some
  chunk, which carries the character of that position.
\<close>

theorem chunker_coverage:
  assumes "0 \<le> ov" "ov < cs"
  shows "\<exists>cks. chunk T s cs ov = Inr cks
     \<and> py_range 0 (int (length T)) (cs - ov) = Inr (map (\<lambda>k. int k * (cs - ov)) [0..<length cks])
     \<and> (\<forall>k<length cks. k * nat (cs - ov) < length T
          \<and> chunk_text (cks ! k) = take (nat cs) (drop (k * nat (cs - ov)) T)
          \<and> chunk_text (cks ! k) \<noteq> []
          \<and> length (chunk_text (cks ! k)) \<le> nat cs
          \<and> chunk_index (chunk_metadata (cks ! k)) = int k)
     \<and> (\<forall>j<length T. \<exists>k<length cks. k * nat (cs - ov) \<le> j
          \<and> j - k * nat (cs - ov) < length (chunk_text (cks ! k))
          \<and> chunk_text (cks ! k) ! (j - k * nat (cs - ov)) = T ! j)"
proof -
  let ?step = "cs - ov"
  let ?sn = "nat ?step"
  let ?m = "chunk_count (length T) ?step"
  let ?mk = "\<lambda>k. \<lparr>chunk_text = take (nat cs) (drop (k * ?sn) T),
                      chunk_metadata = \<lparr>source = s, chunk_index = int k,
                         total_chunks = int (length T) div ?step + 1\<rparr>\<rparr>"
  let ?cks = "map ?mk [0..<?m]"
  have step: "0 < ?step" and cs: "0 < cs" and sn: "0 < ?sn" "?sn \<le> nat cs"
    using assms by simp_all
  have c: "chunk T s cs ov = Inr ?cks"
    using assms(2) cs by (rule chunk_closed)
  have lt: "k < ?m \<longleftrightarrow> k * ?sn < length T" for k
  proof -
    have "k < ?m \<longleftrightarrow> int k * ?step < int (length T)"
      using step by (rule less_chunk_count_iff)
    also have "int k * ?step = int (k * ?sn)"
    proof -
      have e: "int ?sn = ?step" using step by simp
      show ?thesis by (simp only: of_nat_mult e)
    qed
    also have "int (k * ?sn) < int (length T) \<longleftrightarrow> k * ?sn < length T"
      by (rule of_nat_less_iff)
    finally show ?thesis .
  qed
  have r: "py_range 0 (int (length T)) ?step = Inr (map (\<lambda>k. int k * ?step) [0..<length ?cks])"
    using step range_up_closed [OF step, of 0 "int (length T)"]
    by (simp add: py_range_def chunk_count_def)
  have each: "\<forall>k<length ?cks. k * ?sn < length T
          \<and> chunk_text (?cks ! k) = take (nat cs) (drop (k * ?sn) T)
          \<and> chunk_text (?cks ! k) \<noteq> []
          \<and> length (chunk_text (?cks ! k)) \<le> nat cs
          \<and> chunk_index (chunk_metadata (?cks ! k)) = int k"
    using cs by (auto simp: lt)
  have cover: "\<exists>k<length ?cks. k * ?sn \<le> j
          \<and> j - k * ?sn < length (chunk_text (?cks ! k))
          \<and> chunk_text (?cks ! k) ! (j - k * ?sn) = T ! j" if j: "j < length T" for j
  proof -
    let ?k = "j div ?sn"
    have le: "?k * ?sn \<le> j" by simp
    then have "?k * ?sn < length T" using j by (rule le_less_trans)
    then have km: "?k < ?m" by (simp only: lt)
    have "j - ?k * ?sn = j mod ?sn" by (simp add: minus_div_mult_eq_mod)
    then have off: "j - ?k * ?sn < nat cs" using sn
      by (metis mod_less_divisor less_le_trans)
    have ctext: "chunk_text (?cks ! ?k) = take (nat cs) (drop (?k * ?sn) T)"
      using km by simp
    have "j - ?k * ?sn < length (chunk_text (?cks ! ?k))"
      unfolding ctext using le j off by (rule window_nth)
    moreover have "chunk_text (?cks ! ?k) ! (j - ?k * ?sn) = T ! j"
      unfolding ctext using le j off by (rule window_nth)
    ultimately show ?thesis using km le by (intro exI [of _ ?k]) simp
  qed
  show ?thesis
    using c r each cover by blast
qed

theorem chunker_coverage_witness:
  "(0::int) \<le> 1 \<and> (1::int) < 3
   \<and> (\<exists>cks. chunk (str ''abcde'') (str ''s'') 3 1 = Inr cks
     \<and> py_range 0 (int (length (str ''abcde''))) (3 - 1) =
         Inr (map (\<lambda>k. int k * (3 - 1)) [0..<length cks])
     \<and> (\<forall>k<length cks. k * nat (3 - 1) < length (str ''abcde'')
          \<and> chunk_text (cks ! k) = take (nat 3) (drop (k * nat (3 - 1)) (str ''abcde''))
          \<and> chunk_text (cks ! k) \<noteq> []
          \<and> length (chunk_text (cks ! k)) \<le> nat 3
          \<and> chunk_index (chunk_metadata (cks ! k)) = int k)
     \<and> (\<forall>j<length (str ''abcde''). \<exists>k<length cks. k * nat (3 - 1) \<le> j
          \<and> j - k * nat (3 - 1) < length (chunk_text (cks ! k))
          \<and> chunk_text (cks ! k) ! (j - k * nat (3 - 1)) = str ''abcde'' ! j))"
proof -
  have h1: "(0::int) \<le> 1" and h2: "(1::int) < 3" by simp_all
  show ?thesis
    by (intro conjI h1 h2 chunker_coverage [OF h1 h2, of "str ''abcde''" "str ''s''"])
qed

text \<open>
  C2: for \<open>chunk_size > overlap \<ge> 0\<close> every chunk carries the same \<open>total_chunks\<close>,
  namely \<open>len(text) // (chunk_size - overlap) + 1\<close>. The number of chunks emitted is
  that value only when the length is not a multiple of the stride; when it is a
  multiple (the empty text included) one chunk fewer is emitted.
\<close>

theorem total_chunks_estimate:
  assumes "0 \<le> ov" "ov < cs"
  shows "\<exists>cks. chunk T s cs ov = Inr cks
     \<and> (\<forall>c\<in>set cks. total_chunks (chunk_metadata c) = int (length T) div (cs - ov) + 1)
     \<and> int (length cks) =
         (if (cs - ov) dvd int (length T) then int (length T) div (cs - ov)
          else int (length T) div (cs - ov) + 1)"
proof -
  have step: "0 < cs - ov" and cs: "0 < cs" using assms by simp_all
  show ?thesis
    unfolding chunk_closed [OF assms(2) cs]
    using chunk_count_eq [OF step, of "length T"] by auto
qed

theorem total_chunks_estimate_witness:
  "(0::int) \<le> 1 \<and> (1::int) < 3
   \<and> (\<exists>cks. chunk (str ''abcd'') (str ''s'') 3 1 = Inr cks
        \<and> (\<forall>c\<in>set cks. total_chunks (chunk_metadata c) = 3)
        \<and> length cks = 2)"
proof -
  have h1: "(0::int) \<le> 1" and h2: "(1::int) < 3" by simp_all
  show ?thesis
    using h1 h2 total_chunks_estimate [OF h1 h2, of "str ''abcd''" "str ''s''"]
    by (simp add: str_def)
qed



section \<open>Properties of the markdown reconstructor\<close>

lemma split_from_not_Nil: "split_from sep cur s \<noteq> []"
  by (induction s arbitrary: cur) auto

lemma split_from_single:
  "length (split_from sep cur s) = 1 \<Longrightarrow> split_from sep cur s = [cur @ s]"
proof (induction s arbitrary: cur)
  case Nil
  then show ?case by simp
next
  case (Cons c cs)
  show ?case
  proof (cases "prefix sep (c # cs)")
    case True
    then have "length (split_from sep cur (c # cs)) =
        Suc (length (split_from sep [] (drop (length sep - 1) cs)))"
      by simp
    then show ?thesis
      using Cons.prems split_from_not_Nil [of sep "[]" "drop (length sep - 1) cs"] by simp
  next
    case False
    then show ?thesis
      using Cons.IH [of "cur @ [c]"] Cons.prems by simp
  qed
qed

lemma py_split_single: "length (py_split p sep) = 1 \<Longrightarrow> py_split p sep = [p]"
  using split_from_single [of sep "[]" p] by (simp add: py_split_def)

lemma foldl_append_lines:
  "foldl (\<lambda>md line. md @ line @ nl) md ls = md @ concat (map (\<lambda>l. l @ nl) ls)"
  by (induction ls arbitrary: md) simp_all

lemma markdown_step_append: "markdown_step db md p = md @ markdown_step db [] p"
  by (simp add: markdown_step_def Let_def foldl_append_lines)

lemma foldl_markdown_step:
  "foldl (markdown_step db) md ps = md @ concat (map (markdown_step db []) ps)"
proof (induction ps arbitrary: md)
  case Nil
  show ?case by simp
next
  case (Cons p ps)
  show ?case
    using Cons [of "markdown_step db md p"] markdown_step_append [of db md p] by simp
qed

lemma generate_markdown_blocks:
  "generate_markdown db body t pc fn d =
     markdown_header t pc fn d @ concat (map (markdown_step db []) (paragraphs_of body))"
  by (simp add: generate_markdown_def foldl_markdown_step)

lemma prefix_header:
  "prefix (markdown_header t pc fn d) (generate_markdown db body t pc fn d)"
  by (simp add: generate_markdown_blocks)

text \<open>
  C6: a paragraph of a single line that is shorter than 100 characters and is upper-case
  (\<open>str.isupper\<close>) or ends with a colon or a full stop is emitted as a heading, of level
  2 (\<open>## \<close>) when it is shorter than 50 characters and of level 3 (\<open>### \<close>) otherwise,
  followed by a blank line; every other single-line paragraph is emitted unchanged,
  followed by a blank line.
\<close>

theorem heading_classification:
  assumes "length (py_split p (str ''\<newline>'')) = 1"
  shows "markdown_step db md p =
     md @ (if length p < 100
              \<and> (py_isupper db p \<or> endswith p (str '':'') \<or> endswith p (str ''.''))
           then (if length p < 50 then str ''## '' else str ''### '') @ p @ str ''\<newline>\<newline>''
           else p @ str ''\<newline>\<newline>'')"
proof -
  have l: "py_split p (str ''\<newline>'') = [p]"
    using assms by (rule py_split_single)
  have nl: "str ''\<newline>'' @ str ''\<newline>'' = str ''\<newline>\<newline>''"
    by (simp add: str_def)
  show ?thesis
    unfolding markdown_step_def l Let_def using nl by simp
qed

theorem heading_classification_witness:
  "length (py_split (str ''INTRODUCTION'') (str ''\<newline>'')) = 1
   \<and> markdown_step basic_latin [] (str ''INTRODUCTION'') = str ''## INTRODUCTION\<newline>\<newline>''
   \<and> length (py_split (str ''This is a normal sentence without markers'') (str ''\<newline>'')) = 1
   \<and> markdown_step basic_latin [] (str ''This is a normal sentence without markers'')
       = str ''This is a normal sentence without markers\<newline>\<newline>''
   \<and> generate_markdown basic_latin (str ''INTRODUCTION'') (str ''T'') 3 (str ''f.pdf'') (str ''now'')
       = markdown_header (str ''T'') 3 (str ''f.pdf'') (str ''now'') @ str ''## INTRODUCTION\<newline>\<newline>''"
proof -
  have h: "length (py_split (str ''INTRODUCTION'') (str ''\<newline>'')) = 1"
    by (simp add: py_split_def str_def)
  have h2: "length (py_split (str ''This is a normal sentence without markers'') (str ''\<newline>'')) = 1"
    by (simp add: py_split_def str_def)
  have p: "paragraphs_of (str ''INTRODUCTION'') = [str ''INTRODUCTION'']"
    by (simp add: paragraphs_of_def py_split_def str_def py_strip_def is_space_def)
  have a: "markdown_step basic_latin md (str ''INTRODUCTION'') = md @ str ''## INTRODUCTION\<newline>\<newline>''" for md
    using heading_classification [OF h, of basic_latin md]
    by (simp add: str_def py_isupper_def basic_latin_def)
  have b: "markdown_step basic_latin [] (str ''This is a normal sentence without markers'')
       = str ''This is a normal sentence without markers\<newline>\<newline>''"
    using heading_classification [OF h2, of basic_latin "[]"]
    by (simp add: str_def py_isupper_def basic_latin_def endswith_def suffix_to_prefix)
  show ?thesis
    using h h2 a [of "[]"] b a [of "markdown_header (str ''T'') 3 (str ''f.pdf'') (str ''now'')"]
    by (simp add: generate_markdown_def p)
qed

text \<open>
  C7: a paragraph of several lines in which some line, once stripped, starts with the
  bullet \<open>U+2022\<close>, \<open>-\<close>, \<open>*\<close>, \<open>1.\<close> or \<open>2.\<close> is emitted line by line, each line
  unchanged and ended by a newline, followed by one blank line; a paragraph of several
  lines without such a line is emitted as its lines joined by single spaces, followed
  by a blank line. Other numbers are not markers: \<open>3.\<close> and \<open>4.\<close> give the joined form.
\<close>

theorem list_detection:
  assumes "1 < length (py_split p (str ''\<newline>''))"
  shows "markdown_step db md p =
     md @ (if \<exists>l\<in>set (py_split p (str ''\<newline>'')).
                prefix [8226] (py_strip l) \<or> prefix (str ''-'') (py_strip l)
                \<or> prefix (str ''*'') (py_strip l) \<or> prefix (str ''1.'') (py_strip l)
                \<or> prefix (str ''2.'') (py_strip l)
           then concat (map (\<lambda>l. l @ str ''\<newline>'') (py_split p (str ''\<newline>''))) @ str ''\<newline>''
           else py_join (str '' '') (py_split p (str ''\<newline>'')) @ str ''\<newline>\<newline>'')"
proof -
  have m: "list_ex (\<lambda>line. startswith (py_strip line) list_markers) ls \<longleftrightarrow>
      (\<exists>l\<in>set ls. prefix [8226] (py_strip l) \<or> prefix (str ''-'') (py_strip l)
                \<or> prefix (str ''*'') (py_strip l) \<or> prefix (str ''1.'') (py_strip l)
                \<or> prefix (str ''2.'') (py_strip l))" for ls
    by (simp add: list_ex_iff startswith_def list_markers_def)
  show ?thesis
    using assms by (simp add: markdown_step_def Let_def foldl_append_lines m)
qed

theorem list_detection_witness:
  "1 < length (py_split (str ''- item one\<newline>- item two'') (str ''\<newline>''))
   \<and> markdown_step basic_latin [] (str ''- item one\<newline>- item two'')
       = str ''- item one\<newline>- item two\<newline>\<newline>''
   \<and> 1 < length (py_split (str ''3. x\<newline>4. y'') (str ''\<newline>''))
   \<and> markdown_step basic_latin [] (str ''3. x\<newline>4. y'') = str ''3. x 4. y\<newline>\<newline>''"
proof -
  have h: "1 < length (py_split (str ''- item one\<newline>- item two'') (str ''\<newline>''))"
    by (simp add: py_split_def str_def)
  have h2: "1 < length (py_split (str ''3. x\<newline>4. y'') (str ''\<newline>''))"
    by (simp add: py_split_def str_def)
  show ?thesis
    using h h2 list_detection [OF h, of basic_latin "[]"] list_detection [OF h2, of basic_latin "[]"]
    by (simp add: py_split_def str_def py_strip_def is_space_def)
qed

text \<open>
  C8: for every body text the output of \<open>generate_markdown\<close> starts with the header
  block: the title as a level-1 heading, the source file name, the page count, the
  processing time and a horizontal rule. For the title \<open>Title\<close>, 3 pages, the file
  \<open>f.pdf\<close> and the time \<open>2024-01-01 00:00:00\<close> the block is the string of the claim.
\<close>

theorem header_block:
  "prefix (str ''# '' @ t @ str ''\<newline>\<newline>**Source**: '' @ fn
           @ str ''\<newline>**Pages**: '' @ str_int pc
           @ str ''\<newline>**Processed**: '' @ d
           @ str ''\<newline>\<newline>---\<newline>\<newline>'')
      (generate_markdown db body t pc fn d)
   \<and> prefix (str ''# Title\<newline>\<newline>**Source**: f.pdf\<newline>**Pages**: 3\<newline>**Processed**: 2024-01-01 00:00:00\<newline>\<newline>---\<newline>\<newline>'')
      (generate_markdown db (str ''body'') (str ''Title'') 3 (str ''f.pdf'') (str ''2024-01-01 00:00:00''))"
proof -
  have a: "markdown_header t pc fn d = str ''# '' @ t @ str ''\<newline>\<newline>**Source**: '' @ fn
           @ str ''\<newline>**Pages**: '' @ str_int pc
           @ str ''\<newline>**Processed**: '' @ d
           @ str ''\<newline>\<newline>---\<newline>\<newline>''" for t pc fn d
    by (simp add: markdown_header_def)
  have b: "markdown_header (str ''Title'') 3 (str ''f.pdf'') (str ''2024-01-01 00:00:00'') =
      str ''# Title\<newline>\<newline>**Source**: f.pdf\<newline>**Pages**: 3\<newline>**Processed**: 2024-01-01 00:00:00\<newline>\<newline>---\<newline>\<newline>''"
    by (simp add: markdown_header_def str_def str_int_def)
  show ?thesis
    using prefix_header [of t pc fn d db body]
      prefix_header [of "str ''Title''" 3 "str ''f.pdf''" "str ''2024-01-01 00:00:00''" db "str ''body''"]
    unfolding b unfolding a by simp
qed

section \<open>Properties of the chunking loop as a state transformer\<close>

lemma loop_body_frame:
  "loop_body s i =
     s\<lparr>v_i := i, v_chunk := py_slice (v_text s) i (i + v_chunk_size s),
       v_chunks := chunk_step (v_text s) (v_pdf_name s) (v_chunk_size s) (v_overlap s) (v_chunks s) i\<rparr>"
  by (simp add: loop_body_def chunk_step_def Let_def)

lemma foldl_loop_body_chunks:
  "v_chunks (foldl loop_body s offs) =
     foldl (chunk_step (v_text s) (v_pdf_name s) (v_chunk_size s) (v_overlap s)) (v_chunks s) offs"
  by (induction offs arbitrary: s) (simp_all add: loop_body_frame)

lemma foldl_loop_body_frame:
  "foldl loop_body s offs =
     s\<lparr>v_i := v_i (foldl loop_body s offs), v_chunk := v_chunk (foldl loop_body s offs),
       v_chunks := v_chunks (foldl loop_body s offs)\<rparr>"
proof (induction offs arbitrary: s)
  case Nil
  show ?case by simp
next
  case (Cons i offs)
  let ?t = "loop_body s i"
  let ?r = "foldl loop_body ?t offs"
  have "?r = ?t\<lparr>v_i := v_i ?r, v_chunk := v_chunk ?r, v_chunks := v_chunks ?r\<rparr>"
    by (rule Cons)
  also have "\<dots> = s\<lparr>v_i := v_i ?r, v_chunk := v_chunk ?r, v_chunks := v_chunks ?r\<rparr>"
    by (simp add: loop_body_frame)
  finally show ?case by simp
qed

lemma chunk_map_sum:
  "chunk T s cs ov =
     map_sum id (foldl (chunk_step T s cs ov) []) (py_range 0 (int (length T)) (cs - ov))"
  by (simp add: chunk_def split: sum.splits)

lemma chunking_loop_chunks:
  "map_sum id v_chunks (chunking_loop s) =
     map_sum id
       (foldl (chunk_step (v_text s) (v_pdf_name s) (v_chunk_size s) (v_overlap s)) (v_chunks s))
       (py_range 0 (int (length (v_text s))) (v_chunk_size s - v_overlap s))"
  by (simp add: chunking_loop_def foldl_loop_body_chunks split: sum.splits)

lemma chunking_chunks:
  "map_sum id v_chunks (chunking s) = process_pdfs_chunks (v_text s) (v_pdf_name s)"
  by (simp add: chunking_def chunking_loop_chunks process_pdfs_chunks_def chunk_map_sum
      chunk_size_const_def overlap_const_def)

lemma stamp_and_render_keeps:
  "v_text (stamp_and_render db s) = v_text s" "v_pdf_name (stamp_and_render db s) = v_pdf_name s"
  by (simp_all add: stamp_and_render_def Let_def)

text \<open>
  C9: the chunker is deterministic and reads no other state. Two runs of the loop from
  states that agree on the text, the file name, the chunk size, the overlap and the
  chunks built so far end with the same chunks, or both fail, whatever the clock, the
  markdown and every other variable hold. Run from the empty list the loop gives the
  value of \<open>chunk\<close> at the four arguments, and it changes no variable but its own
  three. For lines 277 to 304 as a whole, which read the clock and assign the chunk
  size and the overlap, the chunks depend on the text and the file name alone.
\<close>

theorem chunker_deterministic:
  "(v_text s1 = v_text s2 \<and> v_pdf_name s1 = v_pdf_name s2 \<and> v_chunk_size s1 = v_chunk_size s2
      \<and> v_overlap s1 = v_overlap s2 \<and> v_chunks s1 = v_chunks s2 \<longrightarrow>
      map_sum id v_chunks (chunking_loop s1) = map_sum id v_chunks (chunking_loop s2))
   \<and> (v_chunks s1 = [] \<longrightarrow>
      map_sum id v_chunks (chunking_loop s1) =
        chunk (v_text s1) (v_pdf_name s1) (v_chunk_size s1) (v_overlap s1))
   \<and> (chunking_loop s1 = Inr s' \<longrightarrow>
      s' = s1\<lparr>v_i := v_i s', v_chunk := v_chunk s', v_chunks := v_chunks s'\<rparr>)
   \<and> (v_text s1 = v_text s2 \<and> v_pdf_name s1 = v_pdf_name s2 \<longrightarrow>
      map_sum id v_chunks (chunking (stamp_and_render db s1)) =
        map_sum id v_chunks (chunking (stamp_and_render db s2)))
   \<and> map_sum id v_chunks (chunking (stamp_and_render db s1)) =
        process_pdfs_chunks (v_text s1) (v_pdf_name s1)"
proof -
  have a: "v_text s1 = v_text s2 \<and> v_pdf_name s1 = v_pdf_name s2 \<and> v_chunk_size s1 = v_chunk_size s2
      \<and> v_overlap s1 = v_overlap s2 \<and> v_chunks s1 = v_chunks s2 \<longrightarrow>
      map_sum id v_chunks (chunking_loop s1) = map_sum id v_chunks (chunking_loop s2)"
    by (simp add: chunking_loop_chunks)
  have b: "v_chunks s1 = [] \<longrightarrow>
      map_sum id v_chunks (chunking_loop s1) =
        chunk (v_text s1) (v_pdf_name s1) (v_chunk_size s1) (v_overlap s1)"
    by (simp add: chunking_loop_chunks chunk_map_sum)
  have c: "chunking_loop s1 = Inr s' \<longrightarrow>
      s' = s1\<lparr>v_i := v_i s', v_chunk := v_chunk s', v_chunks := v_chunks s'\<rparr>"
  proof
    assume r: "chunking_loop s1 = Inr s'"
    then obtain offs where "s' = foldl loop_body s1 offs"
      by (auto simp: chunking_loop_def split: sum.splits)
    then show "s' = s1\<lparr>v_i := v_i s', v_chunk := v_chunk s', v_chunks := v_chunks s'\<rparr>"
      using foldl_loop_body_frame [of s1 offs] by simp
  qed
  have d: "map_sum id v_chunks (chunking (stamp_and_render db s1)) =
        process_pdfs_chunks (v_text s1) (v_pdf_name s1)"
    by (simp add: chunking_chunks stamp_and_render_keeps)
  have e: "v_text s1 = v_text s2 \<and> v_pdf_name s1 = v_pdf_name s2 \<longrightarrow>
      map_sum id v_chunks (chunking (stamp_and_render db s1)) =
        map_sum id v_chunks (chunking (stamp_and_render db s2))"
    by (simp add: chunking_chunks stamp_and_render_keeps)
  show ?thesis using a b c d e by blast
qed

theorem chunker_deterministic_witness:
  "v_text sample_state1 = v_text sample_state2
   \<and> v_pdf_name sample_state1 = v_pdf_name sample_state2
   \<and> clock sample_state1 \<noteq> clock sample_state2
   \<and> v_chunks sample_state1 \<noteq> v_chunks sample_state2
   \<and> map_sum id v_chunks (chunking (stamp_and_render basic_latin sample_state1)) =
       map_sum id v_chunks (chunking (stamp_and_render basic_latin sample_state2))
   \<and> map_sum id v_chunks (chunking (stamp_and_render basic_latin sample_state1)) =
       Inr [\<lparr>chunk_text = str ''ab'',
             chunk_metadata = \<lparr>source = str ''f.pdf'', chunk_index = 0, total_chunks = 1\<rparr>\<rparr>]
   \<and> v_markdown_content (stamp_and_render basic_latin sample_state1)
       \<noteq> v_markdown_content (stamp_and_render basic_latin sample_state2)"
proof -
  have h1: "v_text sample_state1 = v_text sample_state2"
    and h2: "v_pdf_name sample_state1 = v_pdf_name sample_state2"
    and h3: "clock sample_state1 \<noteq> clock sample_state2"
    and h4: "v_chunks sample_state1 \<noteq> v_chunks sample_state2"
    by (simp_all add: sample_state1_def sample_state2_def str_def)
  have t: "v_text sample_state1 = str ''ab''" "v_pdf_name sample_state1 = str ''f.pdf''"
    by (simp_all add: sample_state1_def)
  note w = chunker_deterministic [of sample_state1 sample_state2 _ basic_latin]
  have same: "map_sum id v_chunks (chunking (stamp_and_render basic_latin sample_state1)) =
       map_sum id v_chunks (chunking (stamp_and_render basic_latin sample_state2))"
    using w h1 h2 by blast
  have val: "map_sum id v_chunks (chunking (stamp_and_render basic_latin sample_state1)) =
       Inr [\<lparr>chunk_text = str ''ab'',
             chunk_metadata = \<lparr>source = str ''f.pdf'', chunk_index = 0, total_chunks = 1\<rparr>\<rparr>]"
    using w by (simp add: t process_pdfs_chunks_def chunk_size_const_def overlap_const_def chunk_ab)
  have hdr: "markdown_header (str ''f'') 1 (str ''f.pdf'') (str ''2024-01-01 00:00:00'')
       \<noteq> markdown_header (str ''g'') 7 (str ''f.pdf'') (str ''2025-06-30 12:00:00'')"
    by (simp add: markdown_header_def str_def)
  have md: "v_markdown_content (stamp_and_render basic_latin sample_state1)
       \<noteq> v_markdown_content (stamp_and_render basic_latin sample_state2)"
    using hdr
    by (simp add: stamp_and_render_def Let_def sample_state1_def sample_state2_def
        generate_markdown_blocks)
  show ?thesis using h1 h2 h3 h4 same val md by blast
qed

section \<open>Properties of the collection assembler\<close>

lemma first_seen_snoc:
  "first_seen (xs @ [x]) = (if x \<in> set (first_seen xs) then first_seen xs else first_seen xs @ [x])"
  by (simp add: first_seen_def)

lemma set_first_seen: "set (first_seen xs) = set xs"
  by (induction xs rule: rev_induct) (auto simp: first_seen_snoc, simp add: first_seen_def)

lemma distinct_first_seen: "distinct (first_seen xs)"
  by (induction xs rule: rev_induct) (simp_all add: first_seen_snoc, simp add: first_seen_def)

lemma append_at_map:
  "distinct ks \<Longrightarrow>
   append_at s c (map (\<lambda>k. (k, G k)) ks) = map (\<lambda>k. (k, if k = s then G k @ [c] else G k)) ks"
  by (induction ks) auto

lemma append_at_snoc:
  "s \<notin> fst ` set d \<Longrightarrow> append_at s c (d @ [(s, v)]) = d @ [(s, v @ [c])]"
  by (induction d) auto

lemma group_by_source_closed:
  "group_by_source cs =
     map (\<lambda>k. (k, filter (\<lambda>c. source (chunk_metadata c) = k) cs))
       (first_seen (map (\<lambda>c. source (chunk_metadata c)) cs))"
proof (induction cs rule: rev_induct)
  case Nil
  show ?case by (simp add: group_by_source_def first_seen_def)
next
  case (snoc c cs)
  let ?src = "\<lambda>c. source (chunk_metadata c)"
  let ?ks = "first_seen (map ?src cs)"
  let ?G = "\<lambda>k. filter (\<lambda>c. ?src c = k) cs"
  have ih: "foldl group_step [] cs = map (\<lambda>k. (k, ?G k)) ?ks"
    using snoc by (simp add: group_by_source_def)
  have d: "distinct ?ks" by (rule distinct_first_seen)
  have keys: "set (map fst (map (\<lambda>k. (k, ?G k)) ?ks)) = set ?ks"
    by (simp add: comp_def)
  show ?case
  proof (cases "?src c \<in> set ?ks")
    case True
    have "group_step (map (\<lambda>k. (k, ?G k)) ?ks) c =
        append_at (?src c) c (map (\<lambda>k. (k, ?G k)) ?ks)"
      using True keys by (simp add: group_step_def Let_def del: set_map)
    also have "\<dots> = map (\<lambda>k. (k, if k = ?src c then ?G k @ [c] else ?G k)) ?ks"
      using d by (rule append_at_map)
    also have "\<dots> = map (\<lambda>k. (k, filter (\<lambda>c. ?src c = k) (cs @ [c]))) ?ks"
      by (rule map_cong) auto
    finally show ?thesis
      using True by (simp add: group_by_source_def ih first_seen_snoc)
  next
    case False
    have nk: "?src c \<notin> fst ` set (map (\<lambda>k. (k, ?G k)) ?ks)"
      using False by (simp add: image_comp comp_def)
    have e: "?G (?src c) = []"
      using False by (auto simp: set_first_seen filter_empty_conv image_iff)
    have "group_step (map (\<lambda>k. (k, ?G k)) ?ks) c =
        append_at (?src c) c (map (\<lambda>k. (k, ?G k)) ?ks @ [(?src c, [])])"
      using False keys by (simp add: group_step_def Let_def del: set_map)
    also have "\<dots> = map (\<lambda>k. (k, ?G k)) ?ks @ [(?src c, [c])]"
      using append_at_snoc [OF nk, of c "[]"] by simp
    also have "\<dots> = map (\<lambda>k. (k, filter (\<lambda>c. ?src c = k) (cs @ [c]))) (?ks @ [?src c])"
      using False e by (auto simp: set_first_seen)
    finally show ?thesis
      using False by (simp add: group_by_source_def ih first_seen_snoc)
  qed
qed

lemma foldl_add_chunk:
  "foldl (add_chunk u did src t) (n, acc) (enumerate 0 cs) =
     (n + length cs,
      acc @ map (\<lambda>ic. \<lparr>chunk_id = u (n + fst ic), doc_id = did, content = chunk_text (snd ic),
                        content_metadata = \<lparr>source = src, chunk_index = int (fst ic),
                                             total_chunks = int t\<rparr>\<rparr>)
              (enumerate 0 cs))"
  by (induction cs rule: rev_induct) (simp_all add: enumerate_append_eq add_chunk_def)

lemma add_document_eq:
  "add_document u (n, docs) g = (Suc n + length (snd g), docs @ [document_of u n g])"
  by (cases g) (simp add: add_document_def Let_def foldl_add_chunk document_of_def)

lemma foldl_add_document:
  "\<exists>ds. snd (foldl (add_document u) (n, docs) gs) = docs @ ds
        \<and> list_all2 (\<lambda>d g. \<exists>m. d = document_of u m g) ds gs"
proof (induction gs arbitrary: n docs)
  case Nil
  show ?case by simp
next
  case (Cons g gs)
  obtain ds where ds: "snd (foldl (add_document u) (Suc n + length (snd g), docs @ [document_of u n g]) gs)
       = (docs @ [document_of u n g]) @ ds"
      "list_all2 (\<lambda>d g. \<exists>m. d = document_of u m g) ds gs"
    using Cons [of "Suc n + length (snd g)" "docs @ [document_of u n g]"] by blast
  have "snd (foldl (add_document u) (n, docs) (g # gs)) = docs @ (document_of u n g # ds)"
    using ds(1) by (simp add: add_document_eq)
  moreover have "list_all2 (\<lambda>d g. \<exists>m. d = document_of u m g) (document_of u n g # ds) (g # gs)"
    using ds(2) by auto
  ultimately show ?case by blast
qed

lemma build_documents_groups:
  "list_all2 (\<lambda>d g. \<exists>m. d = document_of u m g) (build_documents u cs) (group_by_source cs)"
  using foldl_add_document [of u 0 "[]" "group_by_source cs"]
  by (auto simp: build_documents_def)

lemma list_all2_setD1: "list_all2 R xs ys \<Longrightarrow> x \<in> set xs \<Longrightarrow> \<exists>y\<in>set ys. R x y"
  by (induction rule: list_all2_induct) auto

lemma list_all2_map_eq: "list_all2 (\<lambda>x y. f x = h y) xs ys \<Longrightarrow> map f xs = map h ys"
  by (induction rule: list_all2_induct) auto

lemma title_document_of: "title (document_of u m g) = fst g"
  by (simp add: document_of_def)

lemma content_document_of:
  "map content (content_chunks (document_of u m g)) = map chunk_text (snd g)"
proof -
  have "map content (content_chunks (document_of u m g)) =
      map (chunk_text \<circ> snd) (enumerate 0 (snd g))"
    by (simp add: document_of_def comp_def)
  also have "\<dots> = map chunk_text (map snd (enumerate 0 (snd g)))"
    by (simp only: map_map)
  also have "\<dots> = map chunk_text (snd g)"
    by (simp only: map_snd_enumerate)
  finally show ?thesis .
qed

lemma metadata_document_of:
  "map content_metadata (content_chunks (document_of u m g)) =
     map (\<lambda>i. \<lparr>source = fst g, chunk_index = int i, total_chunks = int (length (snd g))\<rparr>)
       [0..<length (snd g)]"
proof -
  let ?f = "\<lambda>i. \<lparr>source = fst g, chunk_index = int i, total_chunks = int (length (snd g))\<rparr>"
  have "map content_metadata (content_chunks (document_of u m g)) =
      map (?f \<circ> fst) (enumerate 0 (snd g))"
    by (simp add: document_of_def comp_def)
  also have "\<dots> = map ?f (map fst (enumerate 0 (snd g)))"
    by (simp only: map_map)
  also have "\<dots> = map ?f [0..<length (snd g)]"
    by (simp only: map_fst_enumerate) simp
  finally show ?thesis .
qed

lemma length_document_of: "length (content_chunks (document_of u m g)) = length (snd g)"
  by (simp add: document_of_def)

lemma doc_id_document_of:
  "cc \<in> set (content_chunks (document_of u m g)) \<Longrightarrow> doc_id cc = document_id (document_of u m g)"
  by (auto simp: document_of_def)

lemma titles_build_documents:
  "map title (build_documents u cs) = first_seen (map (\<lambda>c. source (chunk_metadata c)) cs)"
proof -
  have "list_all2 (\<lambda>d g. title d = fst g) (build_documents u cs) (group_by_source cs)"
    using build_documents_groups [of u cs]
    by (rule list_all2_mono) (auto simp: title_document_of)
  then have "map title (build_documents u cs) = map fst (group_by_source cs)"
    by (rule list_all2_map_eq)
  then show ?thesis
    by (simp add: group_by_source_closed comp_def)
qed

lemma document_in_build_documents:
  assumes "d \<in> set (build_documents u cs)"
  shows "\<exists>m. d = document_of u m (title d, filter (\<lambda>c. source (chunk_metadata c) = title d) cs)"
proof -
  obtain g m where g: "g \<in> set (group_by_source cs)" and d: "d = document_of u m g"
    using list_all2_setD1 [OF build_documents_groups assms] by blast
  obtain k where k: "g = (k, filter (\<lambda>c. source (chunk_metadata c) = k) cs)"
    using g by (auto simp: group_by_source_closed)
  have "title d = k" using d k by (simp add: title_document_of)
  then show ?thesis using d k by blast
qed

lemma sample_load: "load_all sample_files = [sample_chunk ''x'' ''a'', sample_chunk ''y'' ''b'', sample_chunk ''z'' ''a'']"
  by (simp add: load_all_def sample_files_def)

text \<open>
  C4: the documents are built from the chunks' own \<open>source\<close> fields alone. There is one
  document per distinct source, titled by it, in the order in which the sources are
  first seen. The contents of a document's chunks are the texts of the input chunks of
  that source, in input order, and the metadata of its \<open>i\<close>-th chunk is that source,
  the index \<open>i\<close> and the number of chunks of the document, whatever the input chunks
  stored. When some chunk was loaded, the collection consists of these documents.
\<close>

theorem assembler_grouping:
  "map title (build_documents uuid4 cs) = first_seen (map (\<lambda>c. source (chunk_metadata c)) cs)
   \<and> distinct (map title (build_documents uuid4 cs))
   \<and> set (map title (build_documents uuid4 cs)) = (\<lambda>c. source (chunk_metadata c)) ` set cs
   \<and> (\<forall>d\<in>set (build_documents uuid4 cs).
        map content (content_chunks d) =
          map chunk_text (filter (\<lambda>c. source (chunk_metadata c) = title d) cs)
        \<and> map content_metadata (content_chunks d) =
          map (\<lambda>i. \<lparr>source = title d, chunk_index = int i,
                     total_chunks = int (length (content_chunks d))\<rparr>)
            [0..<length (content_chunks d)])
   \<and> (load_all files \<noteq> [] \<longrightarrow>
        prepare_openwebui_collection uuid4 files name =
          Some \<lparr>collection_name = name, documents = build_documents uuid4 (load_all files)\<rparr>)"
proof -
  have t: "map title (build_documents uuid4 cs) = first_seen (map (\<lambda>c. source (chunk_metadata c)) cs)"
    by (rule titles_build_documents)
  have each: "map content (content_chunks d) =
          map chunk_text (filter (\<lambda>c. source (chunk_metadata c) = title d) cs)
        \<and> map content_metadata (content_chunks d) =
          map (\<lambda>i. \<lparr>source = title d, chunk_index = int i,
                     total_chunks = int (length (content_chunks d))\<rparr>)
            [0..<length (content_chunks d)]"
    if dmem: "d \<in> set (build_documents uuid4 cs)" for d
  proof -
    obtain m where d: "d = document_of uuid4 m (title d, filter (\<lambda>c. source (chunk_metadata c) = title d) cs)"
      using document_in_build_documents [OF dmem] by blast
    show ?thesis
      by (subst d, subst (2) d, subst (3) d, subst (4) d)
        (simp add: content_document_of metadata_document_of length_document_of)
  qed
  show ?thesis
    unfolding t using each
    by (simp add: distinct_first_seen set_first_seen prepare_openwebui_collection_def Let_def)
qed

theorem assembler_grouping_witness:
  "load_all sample_files \<noteq> []
   \<and> prepare_openwebui_collection sample_uuid4 sample_files (str ''kb'') =
       Some \<lparr>collection_name = str ''kb'',
             documents = build_documents sample_uuid4 (load_all sample_files)\<rparr>
   \<and> map title (build_documents sample_uuid4 (load_all sample_files)) = [str ''a'', str ''b'']
   \<and> build_documents sample_uuid4 (load_all sample_files) ! 0
       \<in> set (build_documents sample_uuid4 (load_all sample_files))
   \<and> map content (content_chunks (build_documents sample_uuid4 (load_all sample_files) ! 0))
       = [str ''x'', str ''z'']
   \<and> map content_metadata (content_chunks (build_documents sample_uuid4 (load_all sample_files) ! 0))
       = [\<lparr>source = str ''a'', chunk_index = 0, total_chunks = 2\<rparr>,
          \<lparr>source = str ''a'', chunk_index = 1, total_chunks = 2\<rparr>]"
proof -
  let ?cs = "load_all sample_files"
  let ?ds = "build_documents sample_uuid4 ?cs"
  note g = assembler_grouping [of sample_uuid4 ?cs sample_files "str ''kb''"]
  have ne: "?cs \<noteq> []" by (simp add: sample_load)
  have p: "prepare_openwebui_collection sample_uuid4 sample_files (str ''kb'') =
       Some \<lparr>collection_name = str ''kb'', documents = ?ds\<rparr>"
    using g ne by blast
  have t: "map title ?ds = [str ''a'', str ''b'']"
    using g by (simp add: sample_load first_seen_def sample_chunk_def str_def)
  have len: "length ?ds = 2"
    using arg_cong [OF t, of length] by simp
  have mem: "?ds ! 0 \<in> set ?ds"
    using len by simp
  have t0: "title (?ds ! 0) = str ''a''"
    using arg_cong [OF t, of "\<lambda>xs. xs ! 0"] len by simp
  have b: "\<forall>d\<in>set ?ds.
        map content (content_chunks d) =
          map chunk_text (filter (\<lambda>c. source (chunk_metadata c) = title d) ?cs)
        \<and> map content_metadata (content_chunks d) =
          map (\<lambda>i. \<lparr>source = title d, chunk_index = int i,
                     total_chunks = int (length (content_chunks d))\<rparr>)
            [0..<length (content_chunks d)]"
    using g by blast
  have c: "map content (content_chunks (?ds ! 0)) = [str ''x'', str ''z'']"
    using bspec [OF b mem, unfolded t0] by (simp add: sample_load sample_chunk_def str_def)
  have l: "length (content_chunks (?ds ! 0)) = 2"
    using arg_cong [OF c, of length] by simp
  have m: "map content_metadata (content_chunks (?ds ! 0))
       = [\<lparr>source = str ''a'', chunk_index = 0, total_chunks = 2\<rparr>,
          \<lparr>source = str ''a'', chunk_index = 1, total_chunks = 2\<rparr>]"
    using bspec [OF b mem, unfolded t0 l] by (simp add: upt_rec)
  show ?thesis
    using ne p t mem c m by simp
qed

text \<open>
  C5, as the claim states it, fails: with no chunk files the function returns before it
  builds a collection, so the result is not a collection with an empty document list.
\<close>

theorem assembler_no_chunks_counterexample:
  "prepare_openwebui_collection sample_uuid4 [] (str ''name'')
     \<noteq> Some \<lparr>collection_name = str ''name'', documents = []\<rparr>"
  by (simp add: prepare_openwebui_collection_def load_all_def)

text \<open>
  C5 (amended): when no chunks are loaded the function does not fail and produces no
  collection at all: it returns early and writes no file. A collection that it does
  produce has at least one document.
\<close>

theorem assembler_no_chunks:
  "prepare_openwebui_collection uuid4 [] name = None
   \<and> (load_all files = [] \<longrightarrow> prepare_openwebui_collection uuid4 files name = None)
   \<and> (prepare_openwebui_collection uuid4 files name = Some c \<longrightarrow> documents c \<noteq> [])"
proof -
  have "build_documents uuid4 cs \<noteq> []" if "cs \<noteq> []" for cs
  proof
    assume "build_documents uuid4 cs = []"
    then have "map title (build_documents uuid4 cs) = []" by simp
    then have "set (first_seen (map (\<lambda>c. source (chunk_metadata c)) cs)) = {}"
      by (simp add: titles_build_documents)
    then show False using that by (simp add: set_first_seen)
  qed
  then show ?thesis
    by (auto simp: prepare_openwebui_collection_def Let_def load_all_def)
qed

theorem assembler_no_chunks_witness:
  "load_all [None, Some []] = []
   \<and> prepare_openwebui_collection sample_uuid4 [None, Some []] (str ''kb'') = None
   \<and> prepare_openwebui_collection sample_uuid4 sample_files (str ''kb'') =
       Some \<lparr>collection_name = str ''kb'',
             documents = build_documents sample_uuid4 (load_all sample_files)\<rparr>
   \<and> build_documents sample_uuid4 (load_all sample_files) \<noteq> []"
proof -
  have h1: "load_all [None, Some []] = []" by (simp add: load_all_def)
  have h2: "prepare_openwebui_collection sample_uuid4 sample_files (str ''kb'') =
       Some \<lparr>collection_name = str ''kb'',
             documents = build_documents sample_uuid4 (load_all sample_files)\<rparr>"
    by (simp add: prepare_openwebui_collection_def sample_load)
  show ?thesis
    using h1 h2
      assembler_no_chunks [of sample_uuid4 "str ''kb''" "[None, Some []]"]
      assembler_no_chunks [of sample_uuid4 "str ''kb''" sample_files
         "\<lparr>collection_name = str ''kb'',
             documents = build_documents sample_uuid4 (load_all sample_files)\<rparr>"]
    by simp
qed

text \<open>
  C10: in a collection that the assembler produces, the \<open>doc_id\<close> of every content
  chunk is the \<open>id\<close> of the document that contains it.
\<close>

theorem chunk_doc_id_link:
  assumes "prepare_openwebui_collection uuid4 files name = Some c"
    and "d \<in> set (documents c)" and "cc \<in> set (content_chunks d)"
  shows "doc_id cc = document_id d"
proof -
  have "d \<in> set (build_documents uuid4 (load_all files))"
    using assms(1,2) by (auto simp: prepare_openwebui_collection_def Let_def split: if_splits)
  then obtain m g where "d = document_of uuid4 m g"
    using document_in_build_documents by blast
  then show ?thesis using assms(3) by (simp add: doc_id_document_of)
qed

theorem chunk_doc_id_link_witness:
  "prepare_openwebui_collection sample_uuid4 sample_files (str ''kb'') =
       Some \<lparr>collection_name = str ''kb'',
             documents = build_documents sample_uuid4 (load_all sample_files)\<rparr>
   \<and> build_documents sample_uuid4 (load_all sample_files) ! 0
       \<in> set (documents \<lparr>collection_name = str ''kb'',
             documents = build_documents sample_uuid4 (load_all sample_files)\<rparr>)
   \<and> content_chunks (build_documents sample_uuid4 (load_all sample_files) ! 0) ! 1
       \<in> set (content_chunks (build_documents sample_uuid4 (load_all sample_files) ! 0))
   \<and> doc_id (content_chunks (build_documents sample_uuid4 (load_all sample_files) ! 0) ! 1)
       = document_id (build_documents sample_uuid4 (load_all sample_files) ! 0)
   \<and> document_id (build_documents sample_uuid4 (load_all sample_files) ! 0) = str ''uuid-0''"
proof -
  let ?ds = "build_documents sample_uuid4 (load_all sample_files)"
  have ev: "?ds =
     [\<lparr>document_id = str ''uuid-0'', url = [], title = str ''a'',
       content_chunks =
         [\<lparr>chunk_id = str ''uuid-1'', doc_id = str ''uuid-0'', content = str ''x'',
           content_metadata = \<lparr>source = str ''a'', chunk_index = 0, total_chunks = 2\<rparr>\<rparr>,
          \<lparr>chunk_id = str ''uuid-2'', doc_id = str ''uuid-0'', content = str ''z'',
           content_metadata = \<lparr>source = str ''a'', chunk_index = 1, total_chunks = 2\<rparr>\<rparr>]\<rparr>,
      \<lparr>document_id = str ''uuid-3'', url = [], title = str ''b'',
       content_chunks =
         [\<lparr>chunk_id = str ''uuid-4'', doc_id = str ''uuid-3'', content = str ''y'',
           content_metadata = \<lparr>source = str ''b'', chunk_index = 0, total_chunks = 1\<rparr>\<rparr>]\<rparr>]"
    by (simp add: sample_load build_documents_def group_by_source_def group_step_def
        add_document_def add_chunk_def sample_chunk_def sample_uuid4_def str_def Let_def)
  have h1: "prepare_openwebui_collection sample_uuid4 sample_files (str ''kb'') =
       Some \<lparr>collection_name = str ''kb'', documents = ?ds\<rparr>"
    by (simp add: prepare_openwebui_collection_def sample_load)
  have h2: "?ds ! 0 \<in> set (documents \<lparr>collection_name = str ''kb'', documents = ?ds\<rparr>)"
    unfolding ev by simp
  have h3: "content_chunks (?ds ! 0) ! 1 \<in> set (content_chunks (?ds ! 0))"
    unfolding ev by simp
  have h4: "document_id (?ds ! 0) = str ''uuid-0''"
    unfolding ev by simp
  show ?thesis
    using h1 h2 h3 h4 chunk_doc_id_link [OF h1 h2 h3] by simp
qed

end
